theory Spec2Isabelle
  imports Main
begin

section \<open>Strings of the script\<close>

text \<open>
  The script \<^verbatim>\<open>get_version.py\<close> handles text only: the value of an environment variable,
  the output of \<^verbatim>\<open>git describe\<close>, a formatted time stamp, a path and the text of a C header.
  A Python \<^verbatim>\<open>str\<close> is represented here by the bytes of its UTF-8 encoding, a \<^verbatim>\<open>bytes\<close>
  object by its bytes; both are values of \<^typ>\<open>string\<close>.
\<close>

definition nl :: char where
  "nl = CHR 0x0A"

definition dquote :: char where
  "dquote = CHR 0x22"

text \<open>
  \<^verbatim>\<open>str.lower()\<close>. The upper-case ASCII letters go to their lower-case letters. Python
  maps code points outside ASCII to code points outside ASCII, apart from U+0130 and
  U+212A, whose lower-case forms contain \<^verbatim>\<open>i\<close> and \<^verbatim>\<open>k\<close>; the model leaves the bytes
  of such code points as they are, which agrees with Python on every ASCII string and
  on whether the result equals an ASCII word without \<^verbatim>\<open>i\<close> and \<^verbatim>\<open>k\<close>.
\<close>

definition upper_letters :: string where
  "upper_letters = ''ABCDEFGHIJKLMNOPQRSTUVWXYZ''"

definition lower_letters :: string where
  "lower_letters = ''abcdefghijklmnopqrstuvwxyz''"

definition lower_char :: "char \<Rightarrow> char" where
  "lower_char c =
     (case map_of (zip upper_letters lower_letters) c of
        Some d \<Rightarrow> d
      | None \<Rightarrow> c)"

definition lower :: "string \<Rightarrow> string" where
  "lower s = map lower_char s"

section \<open>Mode selection\<close>

text \<open>\<^verbatim>\<open>os.getenv(key, default)\<close> over the process environment.\<close>

type_synonym environ = "string \<rightharpoonup> string"

definition getenv :: "environ \<Rightarrow> string \<Rightarrow> string \<Rightarrow> string" where
  "getenv e key dflt = (case e key of None \<Rightarrow> dflt | Some v \<Rightarrow> v)"

text \<open>Line 11: \<^verbatim>\<open>is_ci = os.getenv("CI", "false").lower() == "true"\<close>.\<close>

definition is_ci :: "environ \<Rightarrow> bool" where
  "is_ci e = (lower (getenv e ''CI'' ''false'') = ''true'')"

section \<open>Version from the tag\<close>

text \<open>
  \<^verbatim>\<open>bytes.strip()\<close> without argument removes leading and trailing ASCII whitespace:
  space, tab, newline, carriage return, vertical tab and form feed.
\<close>

definition is_space :: "char \<Rightarrow> bool" where
  "is_space c \<longleftrightarrow> c \<in> set [CHR 0x20, CHR 0x09, CHR 0x0A, CHR 0x0D, CHR 0x0B, CHR 0x0C]"

definition strip :: "string \<Rightarrow> string" where
  "strip b = rev (dropWhile is_space (rev (dropWhile is_space b)))"

text \<open>The exceptions of the built-in operations the script calls and does not catch.\<close>

datatype exn =
    UnicodeDecodeError
  | FileNotFoundError
  | NotADirectoryError
  | FileExistsError
  | IsADirectoryError

text \<open>
  \<^verbatim>\<open>bytes.decode("utf-8")\<close>: well-formed UTF-8 (no overlong forms, no surrogates, nothing
  above U+10FFFF) decodes to the text these bytes represent, anything else raises
  \<^verbatim>\<open>UnicodeDecodeError\<close>.
\<close>

definition byte :: "char \<Rightarrow> nat" where
  "byte c = of_char c"

definition cont :: "char \<Rightarrow> bool" where
  "cont c \<longleftrightarrow> 128 \<le> byte c \<and> byte c \<le> 191"

definition second3 :: "nat \<Rightarrow> char \<Rightarrow> bool" where
  "second3 x b \<longleftrightarrow>
     (if x = 224 then 160 \<le> byte b \<and> byte b \<le> 191
      else if x = 237 then 128 \<le> byte b \<and> byte b \<le> 159
      else cont b)"

definition second4 :: "nat \<Rightarrow> char \<Rightarrow> bool" where
  "second4 x b \<longleftrightarrow>
     (if x = 240 then 144 \<le> byte b \<and> byte b \<le> 191
      else if x = 244 then 128 \<le> byte b \<and> byte b \<le> 143
      else cont b)"

fun valid_utf8 :: "string \<Rightarrow> bool" where
  "valid_utf8 [] = True"
| "valid_utf8 (a # rest) =
     (let x = byte a in
      if x < 128 then valid_utf8 rest
      else if 194 \<le> x \<and> x \<le> 223 then
        (case rest of b # r \<Rightarrow> cont b \<and> valid_utf8 r | _ \<Rightarrow> False)
      else if 224 \<le> x \<and> x \<le> 239 then
        (case rest of b # c # r \<Rightarrow> second3 x b \<and> cont c \<and> valid_utf8 r | _ \<Rightarrow> False)
      else if 240 \<le> x \<and> x \<le> 244 then
        (case rest of b # c # d # r \<Rightarrow> second4 x b \<and> cont c \<and> cont d \<and> valid_utf8 r | _ \<Rightarrow> False)
      else False)"

definition decode_utf8 :: "string \<Rightarrow> exn + string" where
  "decode_utf8 b = (if valid_utf8 b then Inr b else Inl UnicodeDecodeError)"

section \<open>Version from the clock\<close>

record datetime =
  year :: nat
  month :: nat
  day :: nat
  hour :: nat
  minute :: nat
  second :: nat
  microsecond :: nat

text \<open>
  The fields of the \<^verbatim>\<open>datetime\<close> that \<^verbatim>\<open>datetime.now()\<close> returns, and
  \<^verbatim>\<open>now.strftime("dev-%Y%m%d-%H%M%S")\<close>. The directives \<^verbatim>\<open>%m\<close>, \<^verbatim>\<open>%d\<close>, \<^verbatim>\<open>%H\<close>, \<^verbatim>\<open>%M\<close> and
  \<^verbatim>\<open>%S\<close> print a decimal number filled with zeros to two digits. \<^verbatim>\<open>%Y\<close> prints the year
  in decimal; the C library of Linux does not fill it, so that a year below 1000 has
  fewer than four digits there (other platforms fill it with zeros to four digits).
\<close>

definition digit_char :: "nat \<Rightarrow> char" where
  "digit_char d = ''0123456789'' ! (d mod 10)"

function dec :: "nat \<Rightarrow> string" where
  "dec n = (if n < 10 then [digit_char n] else dec (n div 10) @ [digit_char (n mod 10)])"
  by pat_completeness auto
termination
  by (relation "measure id") auto

declare dec.simps [simp del]

definition zfill :: "nat \<Rightarrow> string \<Rightarrow> string" where
  "zfill w s = replicate (w - length s) (CHR ''0'') @ s"

definition strftime_dev :: "datetime \<Rightarrow> string" where
  "strftime_dev t =
     ''dev-'' @ dec (year t) @ zfill 2 (dec (month t)) @ zfill 2 (dec (day t))
       @ ''-'' @ zfill 2 (dec (hour t)) @ zfill 2 (dec (minute t)) @ zfill 2 (dec (second t))"

section \<open>The header text\<close>

text \<open>
  Lines 43 to 46: the f-string
  \<^verbatim>\<open>"""#pragma once\n\n#define FIRMWARE_VERSION "{version}"\n"""\<close>.
\<close>

definition header_content :: "string \<Rightarrow> string" where
  "header_content version =
     ''#pragma once'' @ [nl] @ [nl] @ ''#define FIRMWARE_VERSION '' @ [dquote] @ version @ [dquote] @ [nl]"

text \<open>A text made of lines, each line closed by one newline (used to state the layout).\<close>

fun unlines :: "string list \<Rightarrow> string" where
  "unlines [] = []"
| "unlines (l # ls) = l @ [nl] @ unlines ls"

section \<open>Paths\<close>

definition sep :: char where
  "sep = CHR ''/''"

text \<open>\<^verbatim>\<open>os.path.join(a, b)\<close> of \<^verbatim>\<open>posixpath\<close>, for two arguments.\<close>

definition join :: "string \<Rightarrow> string \<Rightarrow> string" where
  "join a b =
     (if b \<noteq> [] \<and> hd b = sep then b
      else if a = [] \<or> last a = sep then a @ b
      else a @ [sep] @ b)"

text \<open>\<^verbatim>\<open>s.rstrip('/')\<close>.\<close>

definition rstrip_sep :: "string \<Rightarrow> string" where
  "rstrip_sep s = rev (dropWhile (\<lambda>c. c = sep) (rev s))"

text \<open>
  \<^verbatim>\<open>os.path.split(p)\<close> of \<^verbatim>\<open>posixpath\<close>: the tail is what follows the last slash, the
  head what precedes it, without its trailing slashes unless it consists of slashes only.
\<close>

definition path_split :: "string \<Rightarrow> string \<times> string" where
  "path_split p =
     (let tail = rev (takeWhile (\<lambda>c. c \<noteq> sep) (rev p));
          head = rev (dropWhile (\<lambda>c. c \<noteq> sep) (rev p))
      in (if head \<noteq> [] \<and> head \<noteq> replicate (length head) sep then rstrip_sep head else head, tail))"

text \<open>The pieces of a path between slashes, and its non-empty pieces (its components).\<close>

fun pieces :: "string \<Rightarrow> string list" where
  "pieces [] = [[]]"
| "pieces (c # cs) =
     (if c = sep then [] # pieces cs
      else (case pieces cs of w # ws \<Rightarrow> (c # w) # ws | [] \<Rightarrow> [[c]]))"

definition components :: "string \<Rightarrow> string list" where
  "components p = filter (\<lambda>w. w \<noteq> []) (pieces p)"

section \<open>The file system\<close>

text \<open>
  A file system maps the absolute path of each existing entry, the list of its
  components from the root, to a directory or to a regular file with its text. The
  root is the empty list. Symbolic links, permissions and devices are not modelled.
\<close>

datatype node = Dir | File string

type_synonym path = "string list"

type_synonym filesystem = "path \<rightharpoonup> node"

text \<open>One step of path resolution from the entry \<open>cur\<close>.\<close>

definition step :: "path \<Rightarrow> string \<Rightarrow> path" where
  "step cur c = (if c = ''.'' then cur else if c = ''..'' then butlast cur else cur @ [c])"

text \<open>
  Resolution of a list of components: every entry a component is looked up in has to be
  a directory. The result is the path of the entry named last, which may be absent.
\<close>

fun walk :: "filesystem \<Rightarrow> path \<Rightarrow> string list \<Rightarrow> exn + path" where
  "walk fs cur [] = Inr cur"
| "walk fs cur (c # cs) =
     (case fs cur of
        None \<Rightarrow> Inl FileNotFoundError
      | Some (File _) \<Rightarrow> Inl NotADirectoryError
      | Some Dir \<Rightarrow> walk fs (step cur c) cs)"

definition start :: "path \<Rightarrow> string \<Rightarrow> path" where
  "start cwd p = (if p \<noteq> [] \<and> hd p = sep then [] else cwd)"

text \<open>\<^verbatim>\<open>os.stat(p)\<close>, as far as the kind of the entry goes.\<close>

definition stat :: "filesystem \<Rightarrow> path \<Rightarrow> string \<Rightarrow> exn + node" where
  "stat fs cwd p =
     (if p = [] then Inl FileNotFoundError
      else case walk fs (start cwd p) (components p) of
        Inl e \<Rightarrow> Inl e
      | Inr q \<Rightarrow>
          (case fs q of
             None \<Rightarrow> Inl FileNotFoundError
           | Some Dir \<Rightarrow> Inr Dir
           | Some (File t) \<Rightarrow> if last p = sep then Inl NotADirectoryError else Inr (File t)))"

text \<open>\<^verbatim>\<open>os.path.isdir\<close> and \<^verbatim>\<open>os.path.exists\<close>: a failing \<^verbatim>\<open>stat\<close> gives False.\<close>

definition isdir :: "filesystem \<Rightarrow> path \<Rightarrow> string \<Rightarrow> bool" where
  "isdir fs cwd p \<longleftrightarrow> stat fs cwd p = Inr Dir"

definition path_exists :: "filesystem \<Rightarrow> path \<Rightarrow> string \<Rightarrow> bool" where
  "path_exists fs cwd p \<longleftrightarrow> (case stat fs cwd p of Inl _ \<Rightarrow> False | Inr _ \<Rightarrow> True)"

text \<open>\<^verbatim>\<open>os.mkdir(p)\<close>.\<close>

definition mkdir :: "filesystem \<Rightarrow> path \<Rightarrow> string \<Rightarrow> exn + filesystem" where
  "mkdir fs cwd p =
     (if p = [] then Inl FileNotFoundError
      else case components p of
        [] \<Rightarrow> Inl FileExistsError
      | c # cs \<Rightarrow>
          (case walk fs (start cwd p) (butlast (c # cs)) of
             Inl e \<Rightarrow> Inl e
           | Inr par \<Rightarrow>
               (case fs par of
                  None \<Rightarrow> Inl FileNotFoundError
                | Some (File _) \<Rightarrow> Inl NotADirectoryError
                | Some Dir \<Rightarrow>
                    (let l = last (c # cs) in
                     if l = ''.'' \<or> l = ''..'' then Inl FileExistsError
                     else if fs (par @ [l]) \<noteq> None then Inl FileExistsError
                     else Inr (fs(par @ [l] \<mapsto> Dir))))))"

text \<open>
  \<^verbatim>\<open>with open(p, "w") as f: f.write(text)\<close>: the file is created or truncated, and
  holds the text afterwards.
\<close>

definition write_file :: "filesystem \<Rightarrow> path \<Rightarrow> string \<Rightarrow> string \<Rightarrow> exn + filesystem" where
  "write_file fs cwd p text =
     (if p = [] then Inl FileNotFoundError
      else case components p of
        [] \<Rightarrow> Inl IsADirectoryError
      | c # cs \<Rightarrow>
          (case walk fs (start cwd p) (butlast (c # cs)) of
             Inl e \<Rightarrow> Inl e
           | Inr par \<Rightarrow>
               (case fs par of
                  None \<Rightarrow> Inl FileNotFoundError
                | Some (File _) \<Rightarrow> Inl NotADirectoryError
                | Some Dir \<Rightarrow>
                    (let l = last (c # cs) in
                     if l = ''.'' \<or> l = ''..'' \<or> last p = sep then Inl IsADirectoryError
                     else (case fs (par @ [l]) of
                             Some Dir \<Rightarrow> Inl IsADirectoryError
                           | _ \<Rightarrow> Inr (fs(par @ [l] \<mapsto> File text)))))))"

text \<open>
  \<^verbatim>\<open>os.makedirs(name)\<close> with \<^verbatim>\<open>exist_ok=False\<close>, after the library's source: the
  missing head is made first, a \<^verbatim>\<open>FileExistsError\<close> from that call is passed over, and
  then the directory itself is made. Directories made before an error stay.
\<close>

definition split2 :: "string \<Rightarrow> string \<times> string" where
  "split2 name =
     (if snd (path_split name) = [] then path_split (fst (path_split name)) else path_split name)"

definition mkdir_or_raise :: "filesystem \<Rightarrow> path \<Rightarrow> string \<Rightarrow> exn option \<times> filesystem" where
  "mkdir_or_raise fs cwd name = (case mkdir fs cwd name of Inl e \<Rightarrow> (Some e, fs) | Inr fs' \<Rightarrow> (None, fs'))"

lemma length_rstrip_sep: "length (rstrip_sep s) \<le> length s"
  unfolding rstrip_sep_def using length_dropWhile_le [of "\<lambda>c. c = sep" "rev s"] by simp

lemma split_head_le: "length (fst (path_split p)) \<le> length p"
proof -
  have a: "length (rev (dropWhile (\<lambda>c. c \<noteq> sep) (rev p))) \<le> length p"
    using length_dropWhile_le [of "\<lambda>c. c \<noteq> sep" "rev p"] by simp
  have b: "length (rstrip_sep x) \<le> length p" if "length x \<le> length p" for x
    using that length_rstrip_sep [of x] by simp
  show ?thesis
    using a b [OF a] by (simp add: path_split_def Let_def)
qed

lemma split_head_less: "snd (path_split p) \<noteq> [] \<Longrightarrow> length (fst (path_split p)) < length p"
proof -
  assume t: "snd (path_split p) \<noteq> []"
  have e: "length (takeWhile (\<lambda>c. c \<noteq> sep) (rev p)) + length (dropWhile (\<lambda>c. c \<noteq> sep) (rev p)) = length p"
    using takeWhile_dropWhile_id [of "\<lambda>c. c \<noteq> sep" "rev p"]
    by (metis length_append length_rev)
  from t have "takeWhile (\<lambda>c. c \<noteq> sep) (rev p) \<noteq> []"
    by (simp add: path_split_def Let_def)
  then have "length (takeWhile (\<lambda>c. c \<noteq> sep) (rev p)) > 0"
    by simp
  with e have "length (dropWhile (\<lambda>c. c \<noteq> sep) (rev p)) < length p" by arith
  then have a: "length (rev (dropWhile (\<lambda>c. c \<noteq> sep) (rev p))) < length p" by simp
  have b: "length (rstrip_sep x) < length p" if "length x < length p" for x
    using that length_rstrip_sep [of x] by simp
  show ?thesis
    using a b [OF a] by (simp add: path_split_def Let_def)
qed

lemma split2_head_less: "snd (split2 p) \<noteq> [] \<Longrightarrow> length (fst (split2 p)) < length p"
proof (cases "snd (path_split p) = []")
  case True
  assume "snd (split2 p) \<noteq> []"
  with True have "snd (path_split (fst (path_split p))) \<noteq> []"
    by (simp add: split2_def)
  then have "length (fst (path_split (fst (path_split p)))) < length (fst (path_split p))"
    by (rule split_head_less)
  with split_head_le [of p] True show ?thesis
    by (simp add: split2_def)
next
  case False
  then show ?thesis using split_head_less [of p]
    by (simp add: split2_def)
qed

function makedirs :: "filesystem \<Rightarrow> path \<Rightarrow> string \<Rightarrow> exn option \<times> filesystem" where
  "makedirs fs cwd name =
     (let head = fst (split2 name); tail = snd (split2 name) in
      if head \<noteq> [] \<and> tail \<noteq> [] \<and> \<not> path_exists fs cwd head then
        (case makedirs fs cwd head of
           (Some e, fs') \<Rightarrow>
             if e = FileExistsError then
               (if tail = ''.'' then (None, fs') else mkdir_or_raise fs' cwd name)
             else (Some e, fs')
         | (None, fs') \<Rightarrow>
             if tail = ''.'' then (None, fs') else mkdir_or_raise fs' cwd name)
      else mkdir_or_raise fs cwd name)"
  by pat_completeness auto
termination
  by (relation "measure (\<lambda>(fs, cwd, name). length name)") (auto simp: split2_head_less)

declare makedirs.simps [simp del]

section \<open>The script\<close>

text \<open>
  What a run reads: the process environment, the construction environment of the build
  system (\<^verbatim>\<open>env\<close>), what \<^verbatim>\<open>subprocess.check_output(["git", "describe", "--tags",
  "--exact-match"])\<close> does, the reading of \<^verbatim>\<open>datetime.now()\<close>, the working directory and
  the file system. The query either returns the bytes git wrote, or raises
  \<^verbatim>\<open>CalledProcessError\<close> (carried with its text \<^verbatim>\<open>str(e)\<close>), or raises
  \<^verbatim>\<open>FileNotFoundError\<close> because there is no git executable.
\<close>

datatype describe_result =
    Tag_output string
  | CalledProcessError string
  | Git_missing

record world =
  environ :: environ
  env :: "string \<rightharpoonup> string"
  git_describe :: describe_result
  now :: datetime
  cwd :: path
  files :: filesystem

text \<open>
  How a run ends: it reaches the last line, or \<^verbatim>\<open>env.Exit(status)\<close> ends the build, or an
  exception nobody catches leaves the script. What it printed and the file system it
  leaves are part of the result.
\<close>

datatype outcome = Completed | Exit int | Raised exn

record result =
  outcome :: outcome
  stdout :: "string list"
  disk :: filesystem

definition squote :: char where
  "squote = CHR 0x27"

definition ci_banner :: string where
  "ci_banner = ''CI environment detected. Getting version from git tag.''"

definition not_on_tag :: "string \<Rightarrow> string" where
  "not_on_tag e = ''Error: Not on a git tag. '' @ [squote] @ ''git describe'' @ [squote] @ '' failed: '' @ e"

definition need_tag :: string where
  "need_tag = ''CI builds must be performed on a commit with a version tag.''"

definition git_not_found :: string where
  "git_not_found = ''Error: git command not found. Is git installed and in the PATH?''"

definition local_banner :: string where
  "local_banner = ''Local build detected. Creating dev version string.''"

definition generated :: "string \<Rightarrow> string \<Rightarrow> string" where
  "generated path version = ''Generated '' @ path @ '' with FIRMWARE_VERSION: '' @ version"

text \<open>
  Lines 13 to 40. The result is what was printed, and either the version or the way the
  run ended early.
\<close>

definition version_stage :: "world \<Rightarrow> string list \<times> (outcome + string)" where
  "version_stage w =
     (if is_ci (environ w) then
        (case git_describe w of
           Tag_output b \<Rightarrow>
             (case decode_utf8 (strip b) of
                Inl e \<Rightarrow> ([ci_banner], Inl (Raised e))
              | Inr version \<Rightarrow> ([ci_banner], Inr version))
         | CalledProcessError e \<Rightarrow> ([ci_banner, not_on_tag e, need_tag], Inl (Exit 1))
         | Git_missing \<Rightarrow> ([ci_banner, git_not_found], Inl (Exit 1)))
      else ([local_banner], Inr (strftime_dev (now w))))"

text \<open>Lines 49 and 50.\<close>

definition include_dir :: "world \<Rightarrow> string" where
  "include_dir w = getenv (env w) ''PROJECT_INCLUDE_DIR'' ''include''"

definition version_file_path :: "world \<Rightarrow> string" where
  "version_file_path w = join (include_dir w) ''version.h''"

text \<open>Lines 52 to 54.\<close>

definition ensure_dir :: "world \<Rightarrow> exn option \<times> filesystem" where
  "ensure_dir w =
     (if \<not> isdir (files w) (cwd w) (include_dir w)
      then makedirs (files w) (cwd w) (include_dir w)
      else (None, files w))"

text \<open>The whole script.\<close>

definition run :: "world \<Rightarrow> result" where
  "run w =
     (case version_stage w of
        (out, Inl ended) \<Rightarrow> \<lparr>outcome = ended, stdout = out, disk = files w\<rparr>
      | (out, Inr version) \<Rightarrow>
          (case ensure_dir w of
             (Some e, fs) \<Rightarrow> \<lparr>outcome = Raised e, stdout = out, disk = fs\<rparr>
           | (None, fs) \<Rightarrow>
               (case write_file fs (cwd w) (version_file_path w) (header_content version) of
                  Inl e \<Rightarrow> \<lparr>outcome = Raised e, stdout = out, disk = fs\<rparr>
                | Inr fs' \<Rightarrow>
                    \<lparr>outcome = Completed,
                     stdout = out @ [generated (version_file_path w) version],
                     disk = fs'\<rparr>)))"

section \<open>Exit status and sample runs\<close>

text \<open>
  The status the interpreter ends with: 0 at the end of the script, the argument of
  \<^verbatim>\<open>Exit\<close>, and 1 after an exception nobody caught.
\<close>

definition exit_status :: "outcome \<Rightarrow> int" where
  "exit_status oc = (case oc of Completed \<Rightarrow> 0 | Exit n \<Rightarrow> n | Raised e \<Rightarrow> 1)"

text \<open>Sample inputs, used to show that the hypotheses of the theorems can be met.\<close>

definition tagged_build :: world where
  "tagged_build =
     \<lparr>environ = [''CI'' \<mapsto> ''true''],
      env = Map.empty,
      git_describe = Tag_output (''v1.2.3'' @ [nl]),
      now = \<lparr>year = 2025, month = 10, day = 17, hour = 2, minute = 32, second = 23, microsecond = 0\<rparr>,
      cwd = [''proj''],
      files = [[] \<mapsto> Dir, [''proj''] \<mapsto> Dir]\<rparr>"

definition untagged_build :: world where
  "untagged_build = tagged_build\<lparr>git_describe := CalledProcessError ''exit status 128''\<rparr>"

definition old_header :: string where
  "old_header = header_content ''v0.9.0-release-candidate''"

definition untagged_rebuild :: world where
  "untagged_rebuild =
     untagged_build\<lparr>files := [[] \<mapsto> Dir, [''proj''] \<mapsto> Dir, [''proj'', ''include''] \<mapsto> Dir,
       [''proj'', ''include'', ''version.h''] \<mapsto> File old_header]\<rparr>"

section \<open>Notions used to state the properties of the time stamp\<close>

text \<open>
  The invariant of Python's \<^verbatim>\<open>datetime\<close> objects, as far as the fields go (the day is not
  checked against the length of the month here).
\<close>

definition datetime_ok :: "datetime \<Rightarrow> bool" where
  "datetime_ok t \<longleftrightarrow>
     1 \<le> year t \<and> year t \<le> 9999 \<and> 1 \<le> month t \<and> month t \<le> 12 \<and> 1 \<le> day t \<and> day t \<le> 31
     \<and> hour t < 24 \<and> minute t < 60 \<and> second t < 60 \<and> microsecond t < 1000000"

text \<open>The last \<open>w\<close> decimal digits of a number, most significant first.\<close>

fun fixed :: "nat \<Rightarrow> nat \<Rightarrow> string" where
  "fixed 0 n = []"
| "fixed (Suc w) n = fixed w (n div 10) @ [digit_char (n mod 10)]"

definition is_digit :: "char \<Rightarrow> bool" where
  "is_digit c \<longleftrightarrow> c \<in> set ''0123456789''"

text \<open>The regular expression \<^verbatim>\<open>dev-\d{8}-\d{6}\<close>, matched against the whole string.\<close>

definition dev_pattern :: "string \<Rightarrow> bool" where
  "dev_pattern s \<longleftrightarrow>
     length s = 19 \<and> take 4 s = ''dev-'' \<and> list_all is_digit (take 8 (drop 4 s))
     \<and> s ! 12 = CHR ''-'' \<and> list_all is_digit (drop 13 s)"




text \<open>Further sample inputs: local builds, rebuilds and other checkouts.\<close>

definition local_build :: world where
  "local_build =
     \<lparr>environ = [''CI'' \<mapsto> ''false''],
      env = Map.empty,
      git_describe = Git_missing,
      now = \<lparr>year = 2025, month = 10, day = 17, hour = 2, minute = 32, second = 23, microsecond = 0\<rparr>,
      cwd = [''proj''],
      files = [[] \<mapsto> Dir, [''proj''] \<mapsto> Dir]\<rparr>"




definition nested_build :: world where
  "nested_build = tagged_build\<lparr>env := [''PROJECT_INCLUDE_DIR'' \<mapsto> ''gen/include'']\<rparr>"

definition blocked_build :: world where
  "blocked_build =
     tagged_build\<lparr>files := [[] \<mapsto> Dir, [''proj''] \<mapsto> Dir, [''proj'', ''include''] \<mapsto> File ''notes'']\<rparr>"


section \<open>Properties\<close>

lemma lower_char_other: "c \<notin> set upper_letters \<Longrightarrow> lower_char c = c"
proof -
  assume "c \<notin> set upper_letters"
  then have "map_of (zip upper_letters lower_letters) c = None"
    by (simp add: map_of_eq_None_iff upper_letters_def lower_letters_def)
  then show ?thesis by (simp add: lower_char_def)
qed

lemma lower_char_upper:
  assumes "c \<in> set upper_letters"
  shows "(lower_char c = CHR ''t'' \<longleftrightarrow> c = CHR ''T'') \<and> (lower_char c = CHR ''r'' \<longleftrightarrow> c = CHR ''R'')
       \<and> (lower_char c = CHR ''u'' \<longleftrightarrow> c = CHR ''U'') \<and> (lower_char c = CHR ''e'' \<longleftrightarrow> c = CHR ''E'')"
proof -
  have "\<forall>d \<in> set upper_letters.
          (lower_char d = CHR ''t'' \<longleftrightarrow> d = CHR ''T'') \<and> (lower_char d = CHR ''r'' \<longleftrightarrow> d = CHR ''R'')
        \<and> (lower_char d = CHR ''u'' \<longleftrightarrow> d = CHR ''U'') \<and> (lower_char d = CHR ''e'' \<longleftrightarrow> d = CHR ''E'')"
    by (simp add: lower_char_def upper_letters_def lower_letters_def)
  with assms show ?thesis by blast
qed

lemma upper_letters_mem:
  "CHR ''T'' \<in> set upper_letters" "CHR ''R'' \<in> set upper_letters"
  "CHR ''U'' \<in> set upper_letters" "CHR ''E'' \<in> set upper_letters"
  "CHR ''t'' \<notin> set upper_letters" "CHR ''r'' \<notin> set upper_letters"
  "CHR ''u'' \<notin> set upper_letters" "CHR ''e'' \<notin> set upper_letters"
  by (simp_all add: upper_letters_def)

lemma lower_char_t: "lower_char c = CHR ''t'' \<longleftrightarrow> c = CHR ''t'' \<or> c = CHR ''T''"
proof (cases "c \<in> set upper_letters")
  case True
  then show ?thesis using lower_char_upper [of c] upper_letters_mem(5) by auto
next
  case False
  then show ?thesis using lower_char_other [of c] upper_letters_mem(1) by auto
qed

lemma lower_char_r: "lower_char c = CHR ''r'' \<longleftrightarrow> c = CHR ''r'' \<or> c = CHR ''R''"
proof (cases "c \<in> set upper_letters")
  case True
  then show ?thesis using lower_char_upper [of c] upper_letters_mem(6) by auto
next
  case False
  then show ?thesis using lower_char_other [of c] upper_letters_mem(2) by auto
qed

lemma lower_char_u: "lower_char c = CHR ''u'' \<longleftrightarrow> c = CHR ''u'' \<or> c = CHR ''U''"
proof (cases "c \<in> set upper_letters")
  case True
  then show ?thesis using lower_char_upper [of c] upper_letters_mem(7) by auto
next
  case False
  then show ?thesis using lower_char_other [of c] upper_letters_mem(3) by auto
qed

lemma lower_char_e: "lower_char c = CHR ''e'' \<longleftrightarrow> c = CHR ''e'' \<or> c = CHR ''E''"
proof (cases "c \<in> set upper_letters")
  case True
  then show ?thesis using lower_char_upper [of c] upper_letters_mem(8) by auto
next
  case False
  then show ?thesis using lower_char_other [of c] upper_letters_mem(4) by auto
qed


lemma map_eq_four:
  "map f v = [w, x, y, z] \<longleftrightarrow>
     (\<exists>a b c d. v = [a, b, c, d] \<and> f a = w \<and> f b = x \<and> f c = y \<and> f d = z)"
  by (simp add: map_eq_Cons_conv) blast

lemma lower_eq_true:
  "lower v = ''true'' \<longleftrightarrow>
     (\<exists>a b c d. v = [a, b, c, d] \<and> a \<in> {CHR ''t'', CHR ''T''} \<and> b \<in> {CHR ''r'', CHR ''R''}
        \<and> c \<in> {CHR ''u'', CHR ''U''} \<and> d \<in> {CHR ''e'', CHR ''E''})"
  unfolding lower_def map_eq_four
  by (simp only: lower_char_t lower_char_r lower_char_u lower_char_e insert_iff empty_iff simp_thms)

text \<open>
  C1. The script is in CI mode exactly when the variable \<^verbatim>\<open>CI\<close> is set and its value is
  the word \<^verbatim>\<open>true\<close> in some mixture of upper and lower case; every other value, and the
  variable being absent, gives local mode.
\<close>

theorem is_ci_iff_true_ignoring_case:
  "is_ci e \<longleftrightarrow>
     (\<exists>a b c d. e ''CI'' = Some [a, b, c, d] \<and> a \<in> {CHR ''t'', CHR ''T''}
        \<and> b \<in> {CHR ''r'', CHR ''R''} \<and> c \<in> {CHR ''u'', CHR ''U''} \<and> d \<in> {CHR ''e'', CHR ''E''})"
proof (cases "e ''CI''")
  case None
  have "lower ''false'' \<noteq> ''true''"
    by (simp add: lower_def lower_char_def)
  with None show ?thesis
    by (simp add: is_ci_def getenv_def)
next
  case (Some v)
  then show ?thesis
    by (simp add: is_ci_def getenv_def lower_eq_true)
qed

text \<open>
  C5. For every version string the header text consists of three lines, each closed by
  one newline: \<^verbatim>\<open>#pragma once\<close>, an empty line, and \<^verbatim>\<open>#define FIRMWARE_VERSION\<close>
  followed by the version between double quotes. Nothing follows the last newline.
\<close>

theorem header_content_layout:
  "header_content v =
     unlines [''#pragma once'', '''', ''#define FIRMWARE_VERSION '' @ [dquote] @ v @ [dquote]]"
  by (simp add: header_content_def)

lemma strip_decomp:
  "\<exists>l r. b = l @ strip b @ r \<and> list_all is_space l \<and> list_all is_space r"
proof -
  define x where "x = dropWhile is_space b"
  have 1: "b = takeWhile is_space b @ x"
    by (simp add: x_def)
  have "rev (dropWhile is_space (rev x)) @ rev (takeWhile is_space (rev x))
          = rev (takeWhile is_space (rev x) @ dropWhile is_space (rev x))"
    by (simp only: rev_append)
  also have "\<dots> = x"
    by (simp only: takeWhile_dropWhile_id rev_rev_ident)
  finally have 2: "x = strip b @ rev (takeWhile is_space (rev x))"
    by (simp add: strip_def x_def)
  have 3: "list_all is_space (takeWhile is_space b)"
    by (simp add: list_all_iff) (meson set_takeWhileD)
  have 4: "list_all is_space (rev (takeWhile is_space (rev x)))"
    by (simp add: list_all_iff) (meson set_takeWhileD)
  from 1 2 have "b = takeWhile is_space b @ strip b @ rev (takeWhile is_space (rev x))"
    by simp
  with 3 4 show ?thesis by blast
qed

lemma strip_ends:
  assumes "strip b \<noteq> []"
  shows "\<not> is_space (hd (strip b)) \<and> \<not> is_space (last (strip b))"
proof -
  define x where "x = dropWhile is_space b"
  define y where "y = dropWhile is_space (rev x)"
  have s: "strip b = rev y" by (simp add: strip_def x_def y_def)
  with assms have y: "y \<noteq> []" by simp
  then have "\<not> is_space (hd y)" unfolding y_def by (rule hd_dropWhile)
  with y s have l: "\<not> is_space (last (strip b))" by (simp add: last_rev)
  from y have x: "x \<noteq> []" by (auto simp: y_def)
  then have hx: "\<not> is_space (hd x)" unfolding x_def by (rule hd_dropWhile)
  obtain z where "rev x = z @ y"
    by (metis takeWhile_dropWhile_id y_def)
  then have "last (rev x) = last y" using y by simp
  with x have "last y = hd x" by (simp add: last_rev)
  with y s hx have "\<not> is_space (hd (strip b))" by (simp add: hd_rev)
  with l show ?thesis by simp
qed

text \<open>
  C2. In CI mode, when the describe query returns bytes that are text once stripped, the
  resolved version is exactly these bytes stripped: the output is the version with
  ASCII whitespace before and after it, and the version neither starts nor ends with
  whitespace.
\<close>

theorem ci_version_is_trimmed_tag:
  assumes "is_ci (environ w)" and "git_describe w = Tag_output b" and "valid_utf8 (strip b)"
  shows "snd (version_stage w) = Inr (strip b)
       \<and> (\<exists>l r. b = l @ strip b @ r \<and> list_all is_space l \<and> list_all is_space r)
       \<and> (strip b = [] \<or> \<not> is_space (hd (strip b)) \<and> \<not> is_space (last (strip b)))"
proof -
  from assms have "snd (version_stage w) = Inr (strip b)"
    by (simp add: version_stage_def decode_utf8_def)
  with strip_decomp [of b] strip_ends [of b] show ?thesis by blast
qed

lemma tagged_build_ci: "is_ci (environ tagged_build)"
  by (simp add: tagged_build_def is_ci_def getenv_def lower_def lower_char_def upper_letters_def lower_letters_def)

lemma strip_example: "strip (''v1.2.3'' @ [nl]) = ''v1.2.3''"
  by (simp add: strip_def is_space_def nl_def)

lemma valid_example: "valid_utf8 ''v1.2.3''"
  by (simp add: byte_def)

theorem ci_version_is_trimmed_tag_witness:
  "is_ci (environ tagged_build) \<and> git_describe tagged_build = Tag_output (''v1.2.3'' @ [nl])
     \<and> valid_utf8 (strip (''v1.2.3'' @ [nl])) \<and> snd (version_stage tagged_build) = Inr ''v1.2.3''"
proof -
  have a: "is_ci (environ tagged_build)"
    by (rule tagged_build_ci)
  have b: "git_describe tagged_build = Tag_output (''v1.2.3'' @ [nl])"
    by (simp add: tagged_build_def)
  have c: "valid_utf8 (strip (''v1.2.3'' @ [nl]))"
    by (simp only: strip_example valid_example)
  from ci_version_is_trimmed_tag [OF a b c]
  have "snd (version_stage tagged_build) = Inr (strip (''v1.2.3'' @ [nl]))"
    by (rule conjunct1)
  then have "snd (version_stage tagged_build) = Inr ''v1.2.3''"
    by (simp only: strip_example)
  with a b c show ?thesis by (intro conjI)
qed

lemma run_called_process_error:
  assumes "is_ci (environ w)" and "git_describe w = CalledProcessError e"
  shows "run w = \<lparr>outcome = Exit 1, stdout = [ci_banner, not_on_tag e, need_tag], disk = files w\<rparr>"
  using assms by (simp add: run_def version_stage_def)

lemma run_git_missing:
  assumes "is_ci (environ w)" and "git_describe w = Git_missing"
  shows "run w = \<lparr>outcome = Exit 1, stdout = [ci_banner, git_not_found], disk = files w\<rparr>"
  using assms by (simp add: run_def version_stage_def)

lemma run_tag_output_no_exit:
  assumes "is_ci (environ w)" and "git_describe w = Tag_output b"
  shows "outcome (run w) \<noteq> Exit n"
  using assms
  by (simp add: run_def version_stage_def split: sum.splits prod.splits option.splits)

lemma untagged_build_ci: "is_ci (environ untagged_build)"
  using tagged_build_ci by (simp add: untagged_build_def)

text \<open>
  C3. In CI mode the script ends the build through \<^verbatim>\<open>env.Exit\<close> in exactly two cases: the
  describe query fails, or there is no git executable. In both the status is 1 and the
  diagnostic lines have been printed. A run that reaches the end of the script has
  status 0.
\<close>

theorem ci_abort_cases:
  assumes "is_ci (environ w)"
  shows "((\<exists>n. outcome (run w) = Exit n) \<longleftrightarrow>
            (\<exists>e. git_describe w = CalledProcessError e) \<or> git_describe w = Git_missing)
       \<and> (\<forall>e. git_describe w = CalledProcessError e \<longrightarrow>
            outcome (run w) = Exit 1 \<and> stdout (run w) = [ci_banner, not_on_tag e, need_tag])
       \<and> (git_describe w = Git_missing \<longrightarrow>
            outcome (run w) = Exit 1 \<and> stdout (run w) = [ci_banner, git_not_found])
       \<and> (\<forall>n. outcome (run w) = Exit n \<longrightarrow> exit_status (outcome (run w)) \<noteq> 0)
       \<and> (outcome (run w) = Completed \<longrightarrow> exit_status (outcome (run w)) = 0)"
proof (cases "git_describe w")
  case (Tag_output b)
  with assms have "outcome (run w) \<noteq> Exit n" for n
    by (rule run_tag_output_no_exit)
  with Tag_output show ?thesis
    by (simp add: exit_status_def)
next
  case (CalledProcessError e)
  with assms have "run w = \<lparr>outcome = Exit 1, stdout = [ci_banner, not_on_tag e, need_tag], disk = files w\<rparr>"
    by (rule run_called_process_error)
  with CalledProcessError show ?thesis
    by (simp add: exit_status_def)
next
  case Git_missing
  with assms have "run w = \<lparr>outcome = Exit 1, stdout = [ci_banner, git_not_found], disk = files w\<rparr>"
    by (rule run_git_missing)
  with Git_missing show ?thesis
    by (simp add: exit_status_def)
qed

theorem ci_abort_cases_witness:
  "is_ci (environ untagged_build)
     \<and> git_describe untagged_build = CalledProcessError ''exit status 128''
     \<and> outcome (run untagged_build) = Exit 1
     \<and> stdout (run untagged_build) = [ci_banner, not_on_tag ''exit status 128'', need_tag]
     \<and> exit_status (outcome (run untagged_build)) \<noteq> 0"
proof -
  have g: "git_describe untagged_build = CalledProcessError ''exit status 128''"
    by (simp add: untagged_build_def)
  from ci_abort_cases [OF untagged_build_ci] g
  have "outcome (run untagged_build) = Exit 1
      \<and> stdout (run untagged_build) = [ci_banner, not_on_tag ''exit status 128'', need_tag]"
    by blast
  moreover from this ci_abort_cases [OF untagged_build_ci]
  have "exit_status (outcome (run untagged_build)) \<noteq> 0"
    by blast
  ultimately show ?thesis
    using untagged_build_ci g by blast
qed

text \<open>
  C7. When a CI run is aborted because the revision has no tag or git is missing, the
  file system after the run is the one before it; in particular the header file, if
  there was one, is what it was.
\<close>

theorem ci_abort_writes_nothing:
  assumes "is_ci (environ w)"
    and "(\<exists>e. git_describe w = CalledProcessError e) \<or> git_describe w = Git_missing"
  shows "disk (run w) = files w
       \<and> stat (disk (run w)) (cwd w) (version_file_path w) = stat (files w) (cwd w) (version_file_path w)"
proof -
  from assms have "disk (run w) = files w"
    by (auto simp: run_called_process_error run_git_missing)
  then show ?thesis by simp
qed

lemma untagged_rebuild_stat:
  "stat (files untagged_rebuild) (cwd untagged_rebuild) (version_file_path untagged_rebuild)
     = Inr (File old_header)"
  by code_simp

theorem ci_abort_writes_nothing_witness:
  "is_ci (environ untagged_rebuild)
     \<and> git_describe untagged_rebuild = CalledProcessError ''exit status 128''
     \<and> stat (disk (run untagged_rebuild)) (cwd untagged_rebuild) (version_file_path untagged_rebuild)
         = Inr (File old_header)"
proof -
  have c: "is_ci (environ untagged_rebuild)"
    using untagged_build_ci by (simp add: untagged_rebuild_def)
  have g: "git_describe untagged_rebuild = CalledProcessError ''exit status 128''"
    by (simp add: untagged_rebuild_def untagged_build_def)
  then have "(\<exists>e. git_describe untagged_rebuild = CalledProcessError e) \<or> git_describe untagged_rebuild = Git_missing"
    by blast
  from ci_abort_writes_nothing [OF c this] untagged_rebuild_stat c g
  show ?thesis by simp
qed

lemma digit_char_is_digit: "is_digit (digit_char d)"
  by (simp add: is_digit_def digit_char_def del: set_simps)

lemma length_fixed: "length (fixed w n) = w"
  by (induction w arbitrary: n) simp_all

lemma digits_fixed: "list_all is_digit (fixed w n)"
  by (induction w arbitrary: n) (simp_all add: digit_char_is_digit)

lemma dec_one_digit: "n < 10 \<Longrightarrow> dec n = [digit_char n]"
  by (simp add: dec.simps)

lemma dec_two_digits: "10 \<le> n \<Longrightarrow> n < 100 \<Longrightarrow> dec n = [digit_char (n div 10), digit_char (n mod 10)]"
  by (subst dec.simps) (simp add: dec_one_digit)

lemma fixed_2: "fixed 2 n = [digit_char (n div 10 mod 10), digit_char (n mod 10)]"
  by (simp add: numeral_2_eq_2)

lemma digit_char_mod: "digit_char (n mod 10) = digit_char n"
  by (simp add: digit_char_def)

lemma zfill_dec_2: "n < 100 \<Longrightarrow> zfill 2 (dec n) = fixed 2 n"
proof (cases "n < 10")
  case True
  have "digit_char 0 = CHR ''0''" by (simp add: digit_char_def)
  with True show ?thesis
    by (simp add: dec_one_digit zfill_def fixed_2)
next
  case False
  assume "n < 100"
  with False have "dec n = [digit_char (n div 10), digit_char (n mod 10)]"
    by (simp add: dec_two_digits)
  then show ?thesis
    by (simp add: zfill_def fixed_2 digit_char_mod)
qed

lemma dec_step: "10 \<le> n \<Longrightarrow> dec n = dec (n div 10) @ [digit_char (n mod 10)]"
  by (subst dec.simps) simp

lemma fixed_4:
  "fixed 4 n = [digit_char (n div 10 div 10 div 10 mod 10), digit_char (n div 10 div 10 mod 10),
      digit_char (n div 10 mod 10), digit_char (n mod 10)]"
proof -
  have "fixed (Suc (Suc (Suc (Suc 0)))) n = [digit_char (n div 10 div 10 div 10 mod 10),
      digit_char (n div 10 div 10 mod 10), digit_char (n div 10 mod 10), digit_char (n mod 10)]"
    by simp
  moreover have "(4::nat) = Suc (Suc (Suc (Suc 0)))" by simp
  ultimately show ?thesis by (simp only:)
qed

lemma dec_4: "1000 \<le> n \<Longrightarrow> n < 10000 \<Longrightarrow> dec n = fixed 4 n"
proof -
  assume a: "1000 \<le> n" "n < 10000"
  then have b: "10 \<le> n" "10 \<le> n div 10" "10 \<le> n div 10 div 10" "n div 10 div 10 div 10 < 10"
    by arith+
  have "dec n = dec (n div 10) @ [digit_char (n mod 10)]"
    using b(1) by (rule dec_step)
  also have "dec (n div 10) = dec (n div 10 div 10) @ [digit_char (n div 10 mod 10)]"
    using b(2) by (rule dec_step)
  also have "dec (n div 10 div 10) = dec (n div 10 div 10 div 10) @ [digit_char (n div 10 div 10 mod 10)]"
    using b(3) by (rule dec_step)
  also have "dec (n div 10 div 10 div 10) = [digit_char (n div 10 div 10 div 10)]"
    using b(4) by (rule dec_one_digit)
  finally have "dec n = [digit_char (n div 10 div 10 div 10), digit_char (n div 10 div 10 mod 10),
      digit_char (n div 10 mod 10), digit_char (n mod 10)]"
    by simp
  moreover have "digit_char (n div 10 div 10 div 10) = digit_char (n div 10 div 10 div 10 mod 10)"
    by (simp only: digit_char_mod)
  ultimately show ?thesis
    by (simp only: fixed_4)
qed

lemma strftime_dev_fixed:
  assumes "datetime_ok t" and "1000 \<le> year t"
  shows "strftime_dev t =
     ''dev-'' @ (fixed 4 (year t) @ fixed 2 (month t) @ fixed 2 (day t))
       @ ''-'' @ (fixed 2 (hour t) @ fixed 2 (minute t) @ fixed 2 (second t))"
proof -
  from assms have "dec (year t) = fixed 4 (year t)"
    by (simp add: dec_4 datetime_ok_def)
  moreover from assms have "zfill 2 (dec (month t)) = fixed 2 (month t)"
    "zfill 2 (dec (day t)) = fixed 2 (day t)" "zfill 2 (dec (hour t)) = fixed 2 (hour t)"
    "zfill 2 (dec (minute t)) = fixed 2 (minute t)" "zfill 2 (dec (second t)) = fixed 2 (second t)"
    by (simp_all add: zfill_dec_2 datetime_ok_def)
  ultimately show ?thesis
    by (simp add: strftime_dev_def)
qed

lemma dev_patternI:
  assumes "length a = 8" and "length b = 6" and "list_all is_digit a" and "list_all is_digit b"
  shows "dev_pattern (''dev-'' @ a @ ''-'' @ b)"
  using assms by (simp add: dev_pattern_def nth_append)

text \<open>
  C4. In local mode the resolved version is the reading of the clock written as
  \<^verbatim>\<open>dev-\<close>, the year in four digits, the month and the day in two digits each, a hyphen,
  and the hour, the minute and the second in two digits each; it matches
  \<^verbatim>\<open>dev-\d{8}-\d{6}\<close>. The reading is a \<^verbatim>\<open>datetime\<close> of a year with four digits.
\<close>

theorem local_version_is_timestamp:
  assumes "\<not> is_ci (environ w)" and "datetime_ok (now w)" and "1000 \<le> year (now w)"
  shows "snd (version_stage w) =
           Inr (''dev-'' @ (fixed 4 (year (now w)) @ fixed 2 (month (now w)) @ fixed 2 (day (now w)))
                  @ ''-'' @ (fixed 2 (hour (now w)) @ fixed 2 (minute (now w)) @ fixed 2 (second (now w))))
       \<and> (\<exists>v. snd (version_stage w) = Inr v \<and> dev_pattern v)"
proof -
  let ?a = "fixed 4 (year (now w)) @ fixed 2 (month (now w)) @ fixed 2 (day (now w))"
  let ?b = "fixed 2 (hour (now w)) @ fixed 2 (minute (now w)) @ fixed 2 (second (now w))"
  from assms(1) have "snd (version_stage w) = Inr (strftime_dev (now w))"
    by (simp add: version_stage_def)
  with assms(2,3) have v: "snd (version_stage w) = Inr (''dev-'' @ ?a @ ''-'' @ ?b)"
    by (simp only: strftime_dev_fixed)
  have "length ?a = 8" "length ?b = 6" "list_all is_digit ?a" "list_all is_digit ?b"
    by (simp_all add: length_fixed digits_fixed)
  then have "dev_pattern (''dev-'' @ ?a @ ''-'' @ ?b)"
    by (rule dev_patternI)
  with v show ?thesis by blast
qed

lemma local_build_not_ci: "\<not> is_ci (environ local_build)"
  by (simp add: local_build_def is_ci_def getenv_def lower_def lower_char_def
      upper_letters_def lower_letters_def)

lemma local_build_now_ok: "datetime_ok (now local_build) \<and> 1000 \<le> year (now local_build)"
  by (simp add: local_build_def datetime_ok_def)

theorem local_version_is_timestamp_witness:
  "\<not> is_ci (environ local_build) \<and> datetime_ok (now local_build) \<and> 1000 \<le> year (now local_build)
     \<and> snd (version_stage local_build) = Inr ''dev-20251017-023223''
     \<and> dev_pattern ''dev-20251017-023223''"
proof -
  have n: "datetime_ok (now local_build)" "1000 \<le> year (now local_build)"
    using local_build_now_ok by simp_all
  have e: "''dev-'' @ (fixed 4 (year (now local_build)) @ fixed 2 (month (now local_build))
        @ fixed 2 (day (now local_build))) @ ''-'' @ (fixed 2 (hour (now local_build))
        @ fixed 2 (minute (now local_build)) @ fixed 2 (second (now local_build)))
      = ''dev-20251017-023223''"
    by (simp add: local_build_def fixed_4 fixed_2 digit_char_def)
  from local_version_is_timestamp [OF local_build_not_ci n, unfolded e]
  obtain v where s: "snd (version_stage local_build) = Inr ''dev-20251017-023223''"
    and v: "snd (version_stage local_build) = Inr v" "dev_pattern v"
    by blast
  from s v(1) have "v = ''dev-20251017-023223''" by simp
  with v(2) have "dev_pattern ''dev-20251017-023223''" by simp
  with s local_build_not_ci n show ?thesis by blast
qed


















subsection \<open>Components of paths\<close>

lemma pieces_not_Nil: "pieces s \<noteq> []"
  by (induction s) (auto split: list.splits)

lemma pieces_append_sep: "pieces (a @ sep # b) = pieces a @ pieces b"
proof (induction a)
  case Nil
  then show ?case by simp
next
  case (Cons c cs)
  obtain w ws where p: "pieces cs = w # ws"
    using pieces_not_Nil [of cs] by (cases "pieces cs") auto
  with Cons show ?case by simp
qed

lemma pieces_no_sep: "sep \<notin> set s \<Longrightarrow> pieces s = [s]"
  by (induction s) auto

lemma components_Nil: "components [] = []"
  by (simp add: components_def)

lemma components_append_sep: "components (a @ sep # b) = components a @ components b"
  by (simp add: components_def pieces_append_sep)

lemma components_no_sep: "sep \<notin> set s \<Longrightarrow> s \<noteq> [] \<Longrightarrow> components s = [s]"
  by (simp add: components_def pieces_no_sep)

lemma components_snoc_sep: "components (a @ [sep]) = components a"
  using components_append_sep [of a "[]"] by (simp add: components_Nil)

lemma components_seps: "set s \<subseteq> {sep} \<Longrightarrow> components s = []"
proof (induction s)
  case Nil
  then show ?case by (simp add: components_Nil)
next
  case (Cons c s)
  then have "c = sep" and "components s = []" by auto
  then show ?case
    using components_append_sep [of "[]" s] by (simp add: components_Nil)
qed

lemma components_append_seps: "set s \<subseteq> {sep} \<Longrightarrow> components (a @ s) = components a"
proof (cases s)
  case Nil
  then show ?thesis by simp
next
  case (Cons c s')
  assume "set s \<subseteq> {sep}"
  with Cons have "c = sep" and "components s' = []"
    by (auto simp: components_seps)
  with Cons show ?thesis
    by (simp add: components_append_sep)
qed

lemma rstrip_sep_decomp: "\<exists>s. x = rstrip_sep x @ s \<and> set s \<subseteq> {sep}"
proof -
  have "rev (dropWhile (\<lambda>c. c = sep) (rev x)) @ rev (takeWhile (\<lambda>c. c = sep) (rev x))
          = rev (takeWhile (\<lambda>c. c = sep) (rev x) @ dropWhile (\<lambda>c. c = sep) (rev x))"
    by (simp only: rev_append)
  also have "\<dots> = x"
    by (simp only: takeWhile_dropWhile_id rev_rev_ident)
  finally have "x = rstrip_sep x @ rev (takeWhile (\<lambda>c. c = sep) (rev x))"
    by (simp add: rstrip_sep_def)
  moreover have "set (rev (takeWhile (\<lambda>c. c = sep) (rev x))) \<subseteq> {sep}"
    by (auto dest: set_takeWhileD)
  ultimately show ?thesis by blast
qed

lemma components_rstrip_sep: "components (rstrip_sep x) = components x"
proof -
  obtain s where "x = rstrip_sep x @ s" and "set s \<subseteq> {sep}"
    using rstrip_sep_decomp by blast
  then show ?thesis
    using components_append_seps [of s "rstrip_sep x"] by simp
qed

lemma hd_rstrip_sep: "rstrip_sep x \<noteq> [] \<Longrightarrow> hd (rstrip_sep x) = hd x"
proof -
  assume n: "rstrip_sep x \<noteq> []"
  obtain s where "x = rstrip_sep x @ s"
    using rstrip_sep_decomp by blast
  then have "hd x = hd (rstrip_sep x @ s)" by simp
  with n show ?thesis by simp
qed

text \<open>A path that does not end with a slash: its head and its tail.\<close>

lemma path_split_decomp:
  "\<exists>h. p = h @ snd (path_split p) \<and> sep \<notin> set (snd (path_split p))
     \<and> (h = [] \<or> last h = sep)
     \<and> fst (path_split p) = (if h \<noteq> [] \<and> h \<noteq> replicate (length h) sep then rstrip_sep h else h)"
proof -
  define h where "h = rev (dropWhile (\<lambda>c. c \<noteq> sep) (rev p))"
  define t where "t = rev (takeWhile (\<lambda>c. c \<noteq> sep) (rev p))"
  have "h @ t = rev (takeWhile (\<lambda>c. c \<noteq> sep) (rev p) @ dropWhile (\<lambda>c. c \<noteq> sep) (rev p))"
    by (simp only: h_def t_def rev_append)
  also have "\<dots> = p"
    by (simp only: takeWhile_dropWhile_id rev_rev_ident)
  finally have 1: "p = h @ t" by simp
  have 2: "sep \<notin> set t"
    by (auto simp: t_def dest: set_takeWhileD)
  have 3: "h = [] \<or> last h = sep"
  proof (cases "dropWhile (\<lambda>c. c \<noteq> sep) (rev p) = []")
    case True
    then show ?thesis by (simp add: h_def)
  next
    case False
    then have "\<not> hd (dropWhile (\<lambda>c. c \<noteq> sep) (rev p)) \<noteq> sep"
      by (rule hd_dropWhile)
    with False show ?thesis by (simp add: h_def last_rev)
  qed
  have 4: "path_split p = (if h \<noteq> [] \<and> h \<noteq> replicate (length h) sep then rstrip_sep h else h, t)"
    by (simp add: path_split_def h_def t_def Let_def)
  from 1 2 3 4 show ?thesis by auto
qed

lemma path_split_components:
  assumes "snd (path_split p) \<noteq> []"
  shows "components p = components (fst (path_split p)) @ [snd (path_split p)]"
    and "fst (path_split p) \<noteq> [] \<Longrightarrow> hd (fst (path_split p)) = hd p"
proof -
  obtain h where p: "p = h @ snd (path_split p)" and t: "sep \<notin> set (snd (path_split p))"
    and h: "h = [] \<or> last h = sep"
    and f: "fst (path_split p) = (if h \<noteq> [] \<and> h \<noteq> replicate (length h) sep then rstrip_sep h else h)"
    using path_split_decomp [of p] by blast
  have c: "components (fst (path_split p)) = components h"
    using f by (simp add: components_rstrip_sep)
  have ct: "components (snd (path_split p)) = [snd (path_split p)]"
    using t assms by (rule components_no_sep)
  show "components p = components (fst (path_split p)) @ [snd (path_split p)]"
  proof (cases "h = []")
    case True
    with p have "components p = components (snd (path_split p))" by simp
    with True c ct show ?thesis by (simp add: components_Nil)
  next
    case False
    with h obtain h' where h': "h = h' @ [sep]"
      by (metis append_butlast_last_id)
    with p have "p = h' @ sep # snd (path_split p)" by simp
    then have "components p = components h' @ components (snd (path_split p))"
      using components_append_sep [of h' "snd (path_split p)"] by simp
    with h' c ct show ?thesis by (simp add: components_snoc_sep)
  qed
  show "hd (fst (path_split p)) = hd p" if n: "fst (path_split p) \<noteq> []"
  proof -
    from n f have hn: "h \<noteq> []" by (auto split: if_splits)
    with p have "hd p = hd h" by (metis hd_append2)
    moreover from n f have "hd (fst (path_split p)) = hd h"
      by (auto simp: hd_rstrip_sep split: if_splits)
    ultimately show ?thesis by simp
  qed
qed

lemma last_not_sep_tail: "p \<noteq> [] \<Longrightarrow> last p \<noteq> sep \<Longrightarrow> snd (path_split p) \<noteq> []"
proof -
  assume "p \<noteq> []" and "last p \<noteq> sep"
  then have "rev p \<noteq> []" and "hd (rev p) \<noteq> sep" by (simp_all add: hd_rev)
  then have "takeWhile (\<lambda>c. c \<noteq> sep) (rev p) \<noteq> []"
    by (cases "rev p") auto
  then show ?thesis by (simp add: path_split_def Let_def)
qed

text \<open>The path of the header, \<^verbatim>\<open>os.path.join(include_dir, "version.h")\<close>.\<close>

lemma join_file:
  assumes "sep \<notin> set b" and "b \<noteq> []"
  shows "components (join a b) = components a @ [b]"
    and "start wd (join a b) = start wd a"
    and "join a b \<noteq> []" and "last (join a b) = last b"
proof -
  from assms have hb: "hd b \<noteq> sep" by (cases b) auto
  show "components (join a b) = components a @ [b]"
  proof (cases "a = []")
    case True
    with assms hb show ?thesis
      by (simp add: join_def components_Nil components_no_sep)
  next
    case False
    show ?thesis
    proof (cases "last a = sep")
      case True
      with False obtain a' where a': "a = a' @ [sep]"
        by (metis append_butlast_last_id)
      with hb assms have "join a b = a' @ sep # b" by (simp add: join_def)
      then have "components (join a b) = components a' @ components b"
        by (simp add: components_append_sep)
      with a' assms show ?thesis
        by (simp add: components_snoc_sep components_no_sep)
    next
      case F: False
      with F \<open>a \<noteq> []\<close> hb assms have "join a b = a @ sep # b" by (simp add: join_def)
      then have "components (join a b) = components a @ components b"
        by (simp add: components_append_sep)
      with assms show ?thesis by (simp add: components_no_sep)
    qed
  qed
  show "start wd (join a b) = start wd a"
    using hb assms by (cases a) (auto simp: join_def start_def)
  show "join a b \<noteq> []"
    using hb assms by (auto simp: join_def)
  show "last (join a b) = last b"
    using hb assms by (auto simp: join_def)
qed

lemma version_h: "sep \<notin> set ''version.h''" "''version.h'' \<noteq> []" "last ''version.h'' \<noteq> sep"
  "''version.h'' \<noteq> ''.''" "''version.h'' \<noteq> ''..''"
  by (simp_all add: sep_def)

subsection \<open>Resolution and the operations on the file system\<close>

lemma walk_append:
  "walk fs cur (xs @ ys) = (case walk fs cur xs of Inl e \<Rightarrow> Inl e | Inr q \<Rightarrow> walk fs q ys)"
  by (induction xs arbitrary: cur) (auto split: option.splits node.splits)

lemma walk_snoc_Inr:
  "walk fs cur (xs @ [l]) = Inr q \<longleftrightarrow>
     (\<exists>par. walk fs cur xs = Inr par \<and> fs par = Some Dir \<and> q = step par l)"
  by (auto simp: walk_append split: sum.splits option.splits node.splits)



lemma mkdir_snoc:
  assumes "components p = cs @ [l]" and "p \<noteq> []"
  shows "mkdir fs wd p =
     (case walk fs (start wd p) cs of
        Inl e \<Rightarrow> Inl e
      | Inr par \<Rightarrow>
          (case fs par of
             None \<Rightarrow> Inl FileNotFoundError
           | Some (File _) \<Rightarrow> Inl NotADirectoryError
           | Some Dir \<Rightarrow>
               if l = ''.'' \<or> l = ''..'' then Inl FileExistsError
               else if fs (par @ [l]) \<noteq> None then Inl FileExistsError
               else Inr (fs(par @ [l] \<mapsto> Dir))))"
proof -
  have "components p \<noteq> []"
    using assms(1) by simp
  then obtain c x where cx: "components p = c # x"
    by (cases "components p") auto
  with assms(1) have "butlast (c # x) = cs" "last (c # x) = l"
    by (metis butlast_snoc, metis last_snoc)
  with cx assms(2) show ?thesis
    by (simp add: mkdir_def Let_def del: butlast.simps last.simps
        split: sum.splits option.splits node.splits)
qed




text \<open>A path that names a regular file: \<^verbatim>\<open>os.makedirs\<close> raises and changes nothing.\<close>

lemma makedirs_on_file:
  assumes "stat fs wd d = Inr (File t)"
  shows "makedirs fs wd d = (Some FileExistsError, fs)"
proof -
  from assms have d: "d \<noteq> []"
    by (auto simp: stat_def)
  from assms obtain q where w: "walk fs (start wd d) (components d) = Inr q"
    and q: "fs q = Some (File t)" and l: "last d \<noteq> sep"
    by (auto simp: stat_def split: sum.splits option.splits node.splits if_splits)
  from d l have tl: "snd (path_split d) \<noteq> []"
    by (rule last_not_sep_tail)
  then have s2: "split2 d = path_split d"
    by (simp add: split2_def)
  let ?h = "fst (path_split d)" and ?t = "snd (path_split d)"
  note c = path_split_components [OF tl]
  from w obtain par where wp: "walk fs (start wd d) (components ?h) = Inr par"
    and p: "fs par = Some Dir" and qs: "q = step par ?t"
    unfolding c(1) walk_snoc_Inr by blast
  have ex: "path_exists fs wd ?h" if "?h \<noteq> []"
  proof -
    from that have "start wd ?h = start wd d"
      using c(2) d by (simp add: start_def)
    with wp p that show ?thesis
      by (simp add: path_exists_def stat_def)
  qed
  have m: "mkdir fs wd d = Inl FileExistsError"
    using wp p q qs unfolding mkdir_snoc [OF c(1) d]
    by (auto simp: step_def split: if_splits)
  have "makedirs fs wd d = mkdir_or_raise fs wd d"
    using ex by (subst makedirs.simps) (auto simp: s2 Let_def)
  with m show ?thesis
    by (simp add: mkdir_or_raise_def)
qed

lemma stat_under_file:
  assumes "stat fs wd d = Inr (File t)"
  shows "stat fs wd (join d ''version.h'') = Inl NotADirectoryError"
proof -
  note j = join_file [OF version_h(1,2), where a = d]
  from assms obtain q where w: "walk fs (start wd d) (components d) = Inr q"
    and q: "fs q = Some (File t)"
    by (auto simp: stat_def split: sum.splits option.splits node.splits if_splits)
  then have "walk fs (start wd d) (components d @ [''version.h'']) = Inl NotADirectoryError"
    by (simp add: walk_append)
  then show ?thesis
    using j(1,2,3) by (simp add: stat_def)
qed

subsection \<open>The ways through the script\<close>





lemma tagged_version: "version_stage tagged_build = ([ci_banner], Inr ''v1.2.3'')"
  by code_simp







lemma nested_build_creates_parents:
  "stat (files nested_build) (cwd nested_build) ''gen'' = Inl FileNotFoundError
     \<and> outcome (run nested_build) = Completed
     \<and> disk (run nested_build) [''proj'', ''gen''] = Some Dir
     \<and> disk (run nested_build) [''proj'', ''gen'', ''include''] = Some Dir"
  by code_simp





text \<open>
  C10. When the include directory path names an existing regular file, the creation of
  the directory raises \<^verbatim>\<open>FileExistsError\<close> once the version is resolved: the run fails,
  the file system is left as it was, and there is no file at the header path.
\<close>

theorem include_dir_is_a_file:
  assumes "stat (files w) (cwd w) (include_dir w) = Inr (File t)"
    and "version_stage w = (out, Inr v)"
  shows "run w = \<lparr>outcome = Raised FileExistsError, stdout = out, disk = files w\<rparr>
       \<and> \<not> path_exists (disk (run w)) (cwd w) (version_file_path w)"
proof -
  from assms(1) have "\<not> isdir (files w) (cwd w) (include_dir w)"
    by (simp add: isdir_def)
  then have "ensure_dir w = (Some FileExistsError, files w)"
    using makedirs_on_file [OF assms(1)] by (simp add: ensure_dir_def)
  with assms(2) have r: "run w = \<lparr>outcome = Raised FileExistsError, stdout = out, disk = files w\<rparr>"
    by (simp add: run_def)
  have "stat (files w) (cwd w) (version_file_path w) = Inl NotADirectoryError"
    unfolding version_file_path_def using assms(1) by (rule stat_under_file)
  with r show ?thesis
    by (simp add: path_exists_def)
qed

lemma blocked_build_stat:
  "stat (files blocked_build) (cwd blocked_build) (include_dir blocked_build) = Inr (File ''notes'')"
  by code_simp

lemma blocked_build_version: "version_stage blocked_build = ([ci_banner], Inr ''v1.2.3'')"
  by code_simp

theorem include_dir_is_a_file_witness:
  "stat (files blocked_build) (cwd blocked_build) (include_dir blocked_build) = Inr (File ''notes'')
     \<and> version_stage blocked_build = ([ci_banner], Inr ''v1.2.3'')
     \<and> outcome (run blocked_build) = Raised FileExistsError
     \<and> disk (run blocked_build) = files blocked_build
     \<and> \<not> path_exists (disk (run blocked_build)) (cwd blocked_build) (version_file_path blocked_build)"
proof -
  note t = include_dir_is_a_file [OF blocked_build_stat blocked_build_version]
  from t have r: "run blocked_build
      = \<lparr>outcome = Raised FileExistsError, stdout = [ci_banner], disk = files blocked_build\<rparr>"
    by (rule conjunct1)
  from t have n: "\<not> path_exists (disk (run blocked_build)) (cwd blocked_build)
      (version_file_path blocked_build)"
    by (rule conjunct2)
  from r have "outcome (run blocked_build) = Raised FileExistsError"
    and "disk (run blocked_build) = files blocked_build"
    by simp_all
  with n blocked_build_stat blocked_build_version show ?thesis by blast
qed

end
